theory Spec2Isabelle
  imports Main "HOL-Library.Word" "HOL-Library.Sublist"
begin

section \<open>JavaScript strings and the string built-ins the logger calls\<close>

text \<open>
  A JavaScript string is a sequence of 16-bit code units. \<open>js\<close> turns an ASCII literal
  into such a sequence; the figures of \<open>./utils\<close> lie outside ASCII and are given by
  their code units.
\<close>

type_synonym jsstring = "16 word list"

definition js :: "string \<Rightarrow> jsstring" where
  "js s = map of_char s"

definition nl :: jsstring where
  \<comment> \<open>the one-unit string written \<^verbatim>\<open>"\n"\<close> in the source\<close>
  "nl = [0x0A]"

definition ESC :: "16 word" where
  \<comment> \<open>the escape unit \<^verbatim>\<open>\x1b\<close> that opens every ANSI sequence\<close>
  "ESC = 0x1B"

text \<open>\<^verbatim>\<open>Array.prototype.join\<close> on an array of strings.\<close>

fun join :: "'a list \<Rightarrow> 'a list list \<Rightarrow> 'a list" where
  "join sep [] = []"
| "join sep [x] = x"
| "join sep (x # y # ys) = x @ sep @ join sep (y # ys)"

text \<open>
  \<^verbatim>\<open>String.prototype.split\<close> with a one-unit separator: the result is never empty
  (\<^verbatim>\<open>"".split("\n")\<close> is \<^verbatim>\<open>[""]\<close>).
\<close>

fun split :: "'a \<Rightarrow> 'a list \<Rightarrow> 'a list list" where
  "split c [] = [[]]"
| "split c (x # xs) =
     (if x = c then [] # split c xs
      else (case split c xs of [] \<Rightarrow> [[x]] | l # ls \<Rightarrow> (x # l) # ls))"

text \<open>\<^verbatim>\<open>String.prototype.includes\<close>: \<open>str_includes t s\<close> is \<^verbatim>\<open>t.includes(s)\<close>.\<close>

fun str_includes :: "'a list \<Rightarrow> 'a list \<Rightarrow> bool" where
  "str_includes [] s = (s = [])"
| "str_includes (c # cs) s = (prefix s (c # cs) \<or> str_includes cs s)"

text \<open>
  Two strings overlap when one occurs in the other, or a non-empty end of one is a
  beginning of the other: text can then be read as the one string running into the other.
\<close>

definition overlaps :: "'a list \<Rightarrow> 'a list \<Rightarrow> bool" where
  "overlaps s r =
     (str_includes r s \<or> str_includes s r
      \<or> list_ex (\<lambda>u. u \<noteq> [] \<and> prefix u s) (suffixes r)
      \<or> list_ex (\<lambda>u. u \<noteq> [] \<and> prefix u r) (suffixes s))"

text \<open>
  \<^verbatim>\<open>String.prototype.replaceAll\<close> with a string pattern and a replacement free of
  \<^verbatim>\<open>$\<close>: \<open>replaceAll s r t\<close> is \<^verbatim>\<open>t.replaceAll(s, r)\<close>. The built-in collects the match
  positions from the left, each search starting \<open>max 1 (length s)\<close> units after the
  previous match, then copies the text between the matches and puts \<open>r\<close> at each match.
  An empty pattern matches at every position, the end included.
\<close>

function replaceAll :: "'a list \<Rightarrow> 'a list \<Rightarrow> 'a list \<Rightarrow> 'a list" where
  "replaceAll s r [] = (if s = [] then r else [])"
| "replaceAll s r (c # cs) =
     (if s = [] then r @ c # replaceAll s r cs
      else if prefix s (c # cs) then r @ replaceAll s r (drop (length s) (c # cs))
      else c # replaceAll s r cs)"
  by pat_completeness auto
termination
  by (relation "measure (\<lambda>(s, r, t). length t)") auto

text \<open>
  \<open>starts_in S w t\<close>: in the text \<open>w @ t\<close> an occurrence of \<open>S\<close> begins inside \<open>w\<close>.
\<close>

definition starts_in :: "'a list \<Rightarrow> 'a list \<Rightarrow> 'a list \<Rightarrow> bool" where
  "starts_in S w t \<longleftrightarrow>
     sublist S w \<or> (\<exists>xs1 xs2. S = xs1 @ xs2 \<and> xs1 \<noteq> [] \<and> suffix xs1 w \<and> prefix xs2 t)"

section \<open>The module \<open>./utils\<close>: figures, colours, levels, log types\<close>

definition Figure_TICK :: jsstring where "Figure_TICK = [0x2714]"
definition Figure_INFO :: jsstring where "Figure_INFO = [0x2139]"
definition Figure_CROSS :: jsstring where "Figure_CROSS = [0x2716]"
definition Figure_WARNING :: jsstring where "Figure_WARNING = [0x26A0]"
definition Figure_ELLIPSIS :: jsstring where "Figure_ELLIPSIS = [0x2026]"
definition Figure_POINTER_SMALL :: jsstring where "Figure_POINTER_SMALL = [0x203A]"

datatype Colour = RED | BOLD | GREY | BLUE | CYAN | RESET | GREEN | YELLOW | MAGENTA | UNDERLINE

text \<open>The string each member of \<open>Colour\<close> stands for.\<close>

fun Colour_str :: "Colour \<Rightarrow> jsstring" where
  "Colour_str RED = ESC # js ''[31m''"
| "Colour_str BOLD = ESC # js ''[1m''"
| "Colour_str GREY = ESC # js ''[90m''"
| "Colour_str BLUE = ESC # js ''[34m''"
| "Colour_str CYAN = ESC # js ''[36m''"
| "Colour_str RESET = ESC # js ''[0m''"
| "Colour_str GREEN = ESC # js ''[32m''"
| "Colour_str YELLOW = ESC # js ''[33m''"
| "Colour_str MAGENTA = ESC # js ''[35m''"
| "Colour_str UNDERLINE = ESC # js ''[4m''"

datatype Level = TRACE | DEBUG | INFO | WARN | ERROR | FATAL

text \<open>The number each member of \<open>Level\<close> stands for; the gate compares these.\<close>

fun Level_num :: "Level \<Rightarrow> nat" where
  "Level_num TRACE = 0"
| "Level_num DEBUG = 1"
| "Level_num INFO = 2"
| "Level_num WARN = 3"
| "Level_num ERROR = 4"
| "Level_num FATAL = 5"

datatype LogTypeName = success | warn | error | fatal | trace | debug | info

datatype Stream = stdout | stderr

text \<open>
  \<open>LogType\<close>. The field \<open>colour\<close> is called \<open>typeColour\<close>, the name \<open>buildMessage\<close>
  binds it to, since \<open>colour\<close> is also the encoder function.
\<close>

record LogType =
  label :: jsstring
  level :: Level
  badge :: jsstring
  typeColour :: Colour
  stream :: Stream

definition createLogType :: "jsstring \<Rightarrow> Level \<Rightarrow> jsstring \<Rightarrow> Colour \<Rightarrow> Stream option \<Rightarrow> LogType" where
  \<comment> \<open>the last parameter defaults to \<open>process.stdout\<close> when the call omits it\<close>
  "createLogType l lv b c s =
     \<lparr>label = l, level = lv, badge = b, typeColour = c,
      stream = (case s of None \<Rightarrow> stdout | Some st \<Rightarrow> st)\<rparr>"

definition colour :: "jsstring \<Rightarrow> Colour list \<Rightarrow> jsstring" where
  "colour input colours = concat (map Colour_str colours) @ input @ Colour_str RESET"

text \<open>
  What \<open>shouldUseColors\<close> reads of the process: three environment variables (unset, or
  set to a string) and \<open>process.stdout.isTTY\<close> (undefined when stdout is no terminal).
  \<open>callerName\<close> is the scope \<open>#getFilename\<close> derives from the call stack; that
  introspection belongs to the host and is taken as given.
\<close>

record Env =
  NO_COLOR :: "jsstring option"
  NODE_DISABLE_COLORS :: "jsstring option"
  FORCE_COLOR :: "jsstring option"
  isTTY :: "bool option"
  callerName :: jsstring

text \<open>JavaScript truthiness of \<^verbatim>\<open>process.env.X\<close>: set, and not the empty string.\<close>

fun truthy :: "jsstring option \<Rightarrow> bool" where
  "truthy None = False"
| "truthy (Some v) = (v \<noteq> [])"

definition shouldUseColors :: "Env \<Rightarrow> bool" where
  "shouldUseColors env =
     (if truthy (NO_COLOR env) \<or> truthy (NODE_DISABLE_COLORS env) then False
      else if truthy (FORCE_COLOR env) then True
      else (case isTTY env of None \<Rightarrow> False | Some b \<Rightarrow> b))"

fun TYPES :: "LogTypeName \<Rightarrow> LogType" where
  "TYPES success = createLogType (js ''success'') INFO Figure_TICK GREEN None"
| "TYPES warn = createLogType (js ''warn'') WARN Figure_WARNING YELLOW None"
| "TYPES error = createLogType (js ''error'') ERROR Figure_CROSS RED (Some stderr)"
| "TYPES fatal = createLogType (js ''fatal'') FATAL Figure_CROSS RED (Some stderr)"
| "TYPES trace = createLogType (js ''trace'') TRACE Figure_ELLIPSIS BLUE None"
| "TYPES debug = createLogType (js ''debug'') DEBUG Figure_INFO CYAN None"
| "TYPES info = createLogType (js ''info'') INFO Figure_INFO BLUE None"

declare TYPES.simps [simp del]

definition Object_values_TYPES :: "LogType list" where
  \<comment> \<open>\<^verbatim>\<open>Object.values(TYPES)\<close>, in the order the object literal lists its keys\<close>
  "Object_values_TYPES = map TYPES [success, warn, error, fatal, trace, debug, info]"

section \<open>The values a logging call receives\<close>

text \<open>
  Plain data: what a record passed to a logging method holds. A number carries the text
  \<^verbatim>\<open>Number.prototype.toString\<close> gives for it (\<open>JNumber\<close> when finite, \<open>JNonFinite\<close> for
  \<^verbatim>\<open>NaN\<close> and the infinities); an object is its \<^verbatim>\<open>Object.entries\<close> list. Functions, symbols,
  big integers and cyclic structures are outside this type.
\<close>

datatype json =
    JUndefined
  | JNull
  | JBool bool
  | JNumber jsstring
  | JNonFinite jsstring
  | JString jsstring
  | JArray "json list"
  | JObject "(jsstring \<times> json) list"

text \<open>An \<open>Error\<close> instance: its name, its message, and its stack when it has one.\<close>

record JSError =
  err_name :: jsstring
  err_message :: jsstring
  err_stack :: "jsstring option"

text \<open>
  One argument of a logging call. A \<open>Date\<close> or a \<open>RegExp\<close> carries the text \<^verbatim>\<open>String()\<close>
  gives for it.
\<close>

datatype arg = AnError JSError | ADate jsstring | ARegExp jsstring | Plain json

section \<open>Built-ins on values: \<open>String\<close>, \<open>Object.entries\<close>, \<open>JSON.stringify\<close>\<close>

text \<open>Decimal text of an array index, as \<^verbatim>\<open>Object.entries\<close> gives the keys of an array.\<close>

function decimal :: "nat \<Rightarrow> jsstring" where
  "decimal n = (if n < 10 then [0x30 + of_nat n] else decimal (n div 10) @ [0x30 + of_nat (n mod 10)])"
  by pat_completeness auto
termination
  by (relation "measure id") auto

fun Object_entries :: "json \<Rightarrow> (jsstring \<times> json) list" where
  "Object_entries (JObject es) = es"
| "Object_entries (JArray xs) = zip (map decimal [0..<length xs]) xs"
| "Object_entries _ = []"

text \<open>\<^verbatim>\<open>String(v)\<close>; an array joins its elements with commas, null and undefined ones empty.\<close>

fun String_json :: "json \<Rightarrow> jsstring" where
  "String_json JUndefined = js ''undefined''"
| "String_json JNull = js ''null''"
| "String_json (JBool b) = (if b then js ''true'' else js ''false'')"
| "String_json (JNumber t) = t"
| "String_json (JNonFinite t) = t"
| "String_json (JString s) = s"
| "String_json (JArray xs) =
     join (js '','') (map (\<lambda>x. if x = JUndefined \<or> x = JNull then [] else String_json x) xs)"
| "String_json (JObject es) = js ''[object Object]''"

definition Error_toString :: "JSError \<Rightarrow> jsstring" where
  "Error_toString e =
     (if err_name e = [] then err_message e
      else if err_message e = [] then err_name e
      else err_name e @ js '': '' @ err_message e)"

fun String_arg :: "arg \<Rightarrow> jsstring" where
  "String_arg (AnError e) = Error_toString e"
| "String_arg (ADate t) = t"
| "String_arg (ARegExp t) = t"
| "String_arg (Plain v) = String_json v"

text \<open>
  \<^verbatim>\<open>JSON.stringify\<close> without indentation. A string is quoted by \<open>QuoteJSONString\<close>:
  the two-unit escapes, \<^verbatim>\<open>\uXXXX\<close> for the other control units and for a surrogate with
  no partner, every other unit as it is.
\<close>

definition isLead :: "16 word \<Rightarrow> bool" where
  "isLead c = (0xD800 \<le> c \<and> c \<le> 0xDBFF)"

definition isTrail :: "16 word \<Rightarrow> bool" where
  "isTrail c = (0xDC00 \<le> c \<and> c \<le> 0xDFFF)"

definition hexDigit :: "16 word \<Rightarrow> 16 word" where
  "hexDigit n = (if n < 10 then 0x30 + n else 0x57 + n)"

definition UnicodeEscape :: "16 word \<Rightarrow> jsstring" where
  "UnicodeEscape c =
     [0x5C, 0x75, hexDigit (drop_bit 12 c), hexDigit (take_bit 4 (drop_bit 8 c)),
      hexDigit (take_bit 4 (drop_bit 4 c)), hexDigit (take_bit 4 c)]"

definition escapeUnit :: "16 word \<Rightarrow> jsstring" where
  "escapeUnit c =
     (if c = 0x08 then [0x5C, 0x62]
      else if c = 0x09 then [0x5C, 0x74]
      else if c = 0x0A then [0x5C, 0x6E]
      else if c = 0x0C then [0x5C, 0x66]
      else if c = 0x0D then [0x5C, 0x72]
      else if c = 0x22 then [0x5C, 0x22]
      else if c = 0x5C then [0x5C, 0x5C]
      else if c < 0x20 \<or> isLead c \<or> isTrail c then UnicodeEscape c
      else [c])"

fun quoteUnits :: "jsstring \<Rightarrow> jsstring" where
  "quoteUnits [] = []"
| "quoteUnits [c] = escapeUnit c"
| "quoteUnits (c # d # cs) =
     (if isLead c \<and> isTrail d then c # d # quoteUnits cs
      else escapeUnit c @ quoteUnits (d # cs))"

definition QuoteJSONString :: "jsstring \<Rightarrow> jsstring" where
  "QuoteJSONString s = 0x22 # quoteUnits s @ [0x22]"

text \<open>
  \<open>None\<close> is the result \<^verbatim>\<open>undefined\<close>. In an array an element without a JSON text
  becomes \<^verbatim>\<open>null\<close>; in an object such a property is left out.
\<close>

fun JSON_stringify :: "json \<Rightarrow> jsstring option" where
  "JSON_stringify JUndefined = None"
| "JSON_stringify JNull = Some (js ''null'')"
| "JSON_stringify (JBool b) = Some (if b then js ''true'' else js ''false'')"
| "JSON_stringify (JNumber t) = Some t"
| "JSON_stringify (JNonFinite t) = Some (js ''null'')"
| "JSON_stringify (JString s) = Some (QuoteJSONString s)"
| "JSON_stringify (JArray xs) =
     Some (js ''['' @
           join (js '','')
             (map (\<lambda>x. case JSON_stringify x of None \<Rightarrow> js ''null'' | Some t \<Rightarrow> t) xs) @
           js '']'')"
| "JSON_stringify (JObject es) =
     Some (js ''{'' @
           join (js '','')
             (concat (map (\<lambda>e. case JSON_stringify (snd e) of
                                   None \<Rightarrow> []
                                 | Some t \<Rightarrow> [QuoteJSONString (fst e) @ js '':'' @ t]) es)) @
           js ''}'')"

text \<open>A value inside a template literal: \<^verbatim>\<open>${undefined}\<close> is the text \<^verbatim>\<open>undefined\<close>.\<close>

fun template :: "jsstring option \<Rightarrow> jsstring" where
  "template None = js ''undefined''"
| "template (Some t) = t"

section \<open>The class \<open>Pika\<close>\<close>

text \<open>
  A property of a \<open>Partial<PikaOptions>\<close> object is missing, present with the value
  \<^verbatim>\<open>undefined\<close>, or present with a value. Object spread copies the last two alike;
  \<^verbatim>\<open>??\<close> takes its right operand for the first two alike.
\<close>

datatype 'a field = Absent | Undefined | Value 'a

record PikaOptions =
  opt_scope :: "jsstring field"
  opt_level :: "Level field"
  opt_secrets :: "jsstring list field"
  opt_useColors :: "bool field"

fun nullish :: "'a field \<Rightarrow> 'a \<Rightarrow> 'a" where
  "nullish (Value v) d = v"
| "nullish _ d = d"

fun over :: "'a field \<Rightarrow> 'a field \<Rightarrow> 'a field" where
  "over a Absent = a"
| "over a b = b"

definition spread :: "PikaOptions \<Rightarrow> PikaOptions \<Rightarrow> PikaOptions" where
  \<comment> \<open>\<^verbatim>\<open>{ ...a, ...b }\<close>\<close>
  "spread a b =
     \<lparr>opt_scope = over (opt_scope a) (opt_scope b),
      opt_level = over (opt_level a) (opt_level b),
      opt_secrets = over (opt_secrets a) (opt_secrets b),
      opt_useColors = over (opt_useColors a) (opt_useColors b)\<rparr>"

text \<open>The private fields \<open>#scope\<close>, \<open>#level\<close>, \<open>#longest\<close>, \<open>#useColors\<close>, \<open>#secrets\<close>.\<close>

record Pika =
  hash_scope :: jsstring
  hash_level :: Level
  hash_longest :: nat
  hash_useColors :: bool
  hash_secrets :: "jsstring list"

definition getFilename :: "Env \<Rightarrow> jsstring" where
  "getFilename env = callerName env"

definition getLongestLabel :: nat where
  \<comment> \<open>\<^verbatim>\<open>Math.max(...lengths.filter((length) => length > 0), 0)\<close>\<close>
  "getLongestLabel =
     foldr max (filter (\<lambda>n. n > 0) (map (\<lambda>type. length (label type)) Object_values_TYPES)) 0"

text \<open>
  The constructor. \<open>#secrets\<close> is a frozen copy of the array passed in, so no instance
  shares its secret list with another object: the list is a value here.
\<close>

definition new_Pika :: "Env \<Rightarrow> PikaOptions \<Rightarrow> Pika" where
  "new_Pika env options =
     \<lparr>hash_scope = nullish (opt_scope options) (getFilename env),
      hash_level = nullish (opt_level options) INFO,
      hash_longest = getLongestLabel,
      hash_useColors = nullish (opt_useColors options) (shouldUseColors env),
      hash_secrets = nullish (opt_secrets options) []\<rparr>"

definition get_options :: "Pika \<Rightarrow> PikaOptions" where
  "get_options p =
     \<lparr>opt_scope = Value (hash_scope p),
      opt_level = Value (hash_level p),
      opt_secrets = Value (hash_secrets p),
      opt_useColors = Value (hash_useColors p)\<rparr>"

text \<open>The reducer \<open>#filterSecrets\<close> passes to \<open>reduce\<close>.\<close>

definition redactStep :: "jsstring \<Rightarrow> jsstring \<Rightarrow> jsstring" where
  "redactStep sanitized secret = replaceAll secret (js ''[REDACTED]'') sanitized"

definition filterSecrets :: "Pika \<Rightarrow> jsstring \<Rightarrow> jsstring" where
  "filterSecrets p input =
     (if length (hash_secrets p) = 0 then input
      else foldl redactStep input (hash_secrets p))"

definition formatScope :: "Pika \<Rightarrow> jsstring" where
  "formatScope p = js ''['' @ hash_scope p @ js '']''"

definition getMeta :: "Pika \<Rightarrow> jsstring list" where
  "getMeta p =
     (let meta = [formatScope p]
      in if length meta > 0
         then map (\<lambda>item. colour item [GREY]) (meta @ [Figure_POINTER_SMALL])
         else meta)"

definition applyColor :: "Pika \<Rightarrow> jsstring \<Rightarrow> Colour list \<Rightarrow> jsstring" where
  "applyColor p text colors = (if hash_useColors p then colour text colors else text)"

text \<open>
  \<open>!error.stack\<close> holds for a missing stack and for the empty string. \<open>split\<close> never
  returns the empty array; were it to, \<open>name\<close> would be \<^verbatim>\<open>undefined\<close> and print as such.
\<close>

definition formatError :: "Pika \<Rightarrow> JSError \<Rightarrow> jsstring" where
  "formatError p e =
     (case err_stack e of
        None \<Rightarrow> err_message e
      | Some st \<Rightarrow>
          if st = [] then err_message e
          else
            (let lines = split 0x0A st;
                 name = (case lines of [] \<Rightarrow> js ''undefined'' | n # _ \<Rightarrow> n);
                 stackLines = (case lines of [] \<Rightarrow> [] | _ # ls \<Rightarrow> ls);
                 coloredName = applyColor p name [UNDERLINE];
                 coloredStack = applyColor p (join nl stackLines) [GREY]
             in coloredName @ nl @ coloredStack))"

definition formatObject :: "json \<Rightarrow> jsstring" where
  "formatObject obj =
     join (js '', '')
       (map (\<lambda>(key, val). key @ js '' = '' @ template (JSON_stringify val)) (Object_entries obj))"

text \<open>The parts pushed before the payload: the meta parts, the badge, the padded label.\<close>

definition headParts :: "Pika \<Rightarrow> LogType \<Rightarrow> jsstring list" where
  "headParts p type =
     getMeta p @
     [applyColor p (badge type @ js '' '') [typeColour type],
      applyColor p (label type) [typeColour type, UNDERLINE] @
        replicate (hash_longest p - length (label type)) 0x20]"

text \<open>
  The part pushed for the arguments, by the \<open>if\<close>, \<open>else if\<close>, \<open>else\<close> of
  \<open>#buildMessage\<close>: an \<open>Error\<close>; then a value with
  \<open>typeof first === "object" && first !== null\<close> that is neither a \<open>Date\<close> nor a
  \<open>RegExp\<close> (an object or an array); then everything else.
\<close>

fun payload :: "Pika \<Rightarrow> arg \<Rightarrow> arg list \<Rightarrow> jsstring" where
  "payload p (AnError e) rest = formatError p e"
| "payload p (Plain (JObject es)) rest = formatObject (JObject es)"
| "payload p (Plain (JArray xs)) rest = formatObject (JArray xs)"
| "payload p first rest =
     applyColor p (join (js '' '') (map String_arg (first # rest))) [GREY]"

fun buildMessage :: "Pika \<Rightarrow> LogType \<Rightarrow> arg list \<Rightarrow> jsstring" where
  "buildMessage p type [] = join (js '' '') (headParts p type)"
| "buildMessage p type (first # rest) =
     join (js '' '') (headParts p type @ [payload p first rest])"

text \<open>
  \<open>#log\<close>: what the call writes, and to which stream; \<open>None\<close> when the gate returns
  before anything is built.
\<close>

definition log :: "Pika \<Rightarrow> LogType \<Rightarrow> arg list \<Rightarrow> (Stream \<times> jsstring) option" where
  "log p type args =
     (if Level_num (level type) < Level_num (hash_level p) then None
      else Some (stream type, filterSecrets p (buildMessage p type args) @ nl))"

section \<open>Instances in a store\<close>

text \<open>
  The builder methods allocate; whether they leave the receiver alone is a question
  about objects with identity. The store holds every \<open>Pika\<close> instance at the index that
  is its reference, and the chunks written so far with the stream of each.
\<close>

record World =
  heap :: "Pika list"
  written :: "(Stream \<times> jsstring) list"

definition deref :: "World \<Rightarrow> nat \<Rightarrow> Pika option" where
  "deref w r = (if r < length (heap w) then Some (heap w ! r) else None)"

definition alloc :: "Pika \<Rightarrow> World \<Rightarrow> nat \<times> World" where
  \<comment> \<open>\<^verbatim>\<open>new Pika(...)\<close>: a fresh reference\<close>
  "alloc p w = (length (heap w), w\<lparr>heap := heap w @ [p]\<rparr>)"

text \<open>
  The methods take the store and the reference \<open>this\<close>; the result is \<open>None\<close> for a
  reference to no object, which JavaScript cannot produce.
\<close>

definition Pika_scope :: "Env \<Rightarrow> World \<Rightarrow> nat \<Rightarrow> jsstring \<Rightarrow> (nat \<times> World) option" where
  "Pika_scope env w this scope =
     (case deref w this of
        None \<Rightarrow> None
      | Some p \<Rightarrow> Some (alloc (new_Pika env ((get_options p)\<lparr>opt_scope := Value scope\<rparr>)) w))"

definition Pika_level :: "Env \<Rightarrow> World \<Rightarrow> nat \<Rightarrow> Level \<Rightarrow> (nat \<times> World) option" where
  "Pika_level env w this lv =
     (case deref w this of
        None \<Rightarrow> None
      | Some p \<Rightarrow> Some (alloc (new_Pika env ((get_options p)\<lparr>opt_level := Value lv\<rparr>)) w))"

definition Pika_secrets :: "Env \<Rightarrow> World \<Rightarrow> nat \<Rightarrow> jsstring list \<Rightarrow> (nat \<times> World) option" where
  "Pika_secrets env w this secrets =
     (case deref w this of
        None \<Rightarrow> None
      | Some p \<Rightarrow>
          Some (alloc (new_Pika env
                  ((get_options p)\<lparr>opt_secrets := Value (hash_secrets p @ secrets)\<rparr>)) w))"

definition Pika_clone :: "Env \<Rightarrow> World \<Rightarrow> nat \<Rightarrow> PikaOptions \<Rightarrow> (nat \<times> World) option" where
  "Pika_clone env w this overrides =
     (case deref w this of
        None \<Rightarrow> None
      | Some p \<Rightarrow> Some (alloc (new_Pika env (spread (get_options p) overrides)) w))"

text \<open>\<open>pika(options)\<close>, the exported factory.\<close>

definition pika :: "Env \<Rightarrow> PikaOptions \<Rightarrow> World \<Rightarrow> nat \<times> World" where
  "pika env options w = alloc (new_Pika env options) w"

text \<open>
  The seven logging methods: \<open>logMethod n\<close> is \<open>this.#log(TYPES.n, ...args)\<close>, the write
  appended to what the process has written.
\<close>

definition logMethod :: "LogTypeName \<Rightarrow> World \<Rightarrow> nat \<Rightarrow> arg list \<Rightarrow> World option" where
  "logMethod n w this args =
     (case deref w this of
        None \<Rightarrow> None
      | Some p \<Rightarrow>
          (case log p (TYPES n) args of
             None \<Rightarrow> Some w
           | Some chunk \<Rightarrow> Some (w\<lparr>written := written w @ [chunk]\<rparr>)))"

text \<open>
  What is asked of the result \<open>res\<close> of a builder call on the receiver \<open>this\<close>, which
  held the object \<open>p\<close> in the store \<open>w\<close>: the call returns a reference \<open>r\<close> that was no
  object before and is one now, other than the receiver; the receiver still holds \<open>p\<close>
  (its scope, level, secret list and colour flag are the fields of \<open>p\<close>); every other
  object is as it was; nothing was written; and every later logging call on the
  receiver writes what it would have written before the builder call.
\<close>

definition new_instance_receiver_kept ::
    "World \<Rightarrow> nat \<Rightarrow> Pika \<Rightarrow> (nat \<times> World) option \<Rightarrow> bool" where
  "new_instance_receiver_kept w this p res =
     (\<exists>r w'. res = Some (r, w')
        \<and> r \<noteq> this \<and> deref w r = None \<and> deref w' r \<noteq> None
        \<and> deref w' this = Some p
        \<and> (\<forall>a q. deref w a = Some q \<longrightarrow> deref w' a = Some q)
        \<and> written w' = written w
        \<and> (\<forall>n args. map_option written (logMethod n w' this args) =
                      map_option written (logMethod n w this args)))"

section \<open>A concrete logger, used to instantiate the theorems\<close>

definition env0 :: Env where
  "env0 = \<lparr>NO_COLOR = None, NODE_DISABLE_COLORS = None, FORCE_COLOR = None,
           isTTY = Some True, callerName = js ''app''\<rparr>"

definition P0 :: Pika where
  \<comment> \<open>\<^verbatim>\<open>pika({ scope: "main", level: Level.INFO, secrets: ["password123"], useColors: false })\<close>\<close>
  "P0 = new_Pika env0
          \<lparr>opt_scope = Value (js ''main''), opt_level = Value INFO,
           opt_secrets = Value [js ''password123''], opt_useColors = Value False\<rparr>"

definition W0 :: World where
  "W0 = \<lparr>heap = [P0], written = []\<rparr>"

definition Q0 :: Pika where
  \<comment> \<open>\<open>P0\<close> with the secret list \<^verbatim>\<open>["RED"]\<close>\<close>
  "Q0 = P0\<lparr>hash_secrets := [js ''RED'']\<rparr>"

definition P1 :: Pika where
  \<comment> \<open>the logger of the README, colours off:
      \<^verbatim>\<open>pika({ useColors: false }).scope("main").level(Level.TRACE).secrets("password123", "apiKey")\<close>\<close>
  "P1 = new_Pika env0
          \<lparr>opt_scope = Value (js ''main''), opt_level = Value TRACE,
           opt_secrets = Value [js ''password123'', js ''apiKey''], opt_useColors = Value False\<rparr>"

definition readme_record :: json where
  \<comment> \<open>the record the README passes to \<open>debug\<close>\<close>
  "readme_record =
     JObject [(js ''message'', JString (js ''Investigating API response delay'')),
              (js ''responseTime'', JString (js ''700ms'')),
              (js ''endpoint'', JString (js ''/users/profile''))]"

definition nested_record :: json where
  \<comment> \<open>\<^verbatim>\<open>{ a: [1, undefined, null, true, false, NaN, { b: "x" }, []], u: undefined, 'k"': -2.5 }\<close>\<close>
  "nested_record =
     JObject [(js ''a'', JArray [JNumber (js ''1''), JUndefined, JNull, JBool True, JBool False,
                               JNonFinite (js ''NaN''),
                               JObject [(js ''b'', JString (js ''x''))], JArray []]),
              (js ''u'', JUndefined),
              (js ''k'' @ [0x22], JNumber (js ''-2.5''))]"

definition tricky_string :: jsstring where
  \<comment> \<open>\<^verbatim>\<open>a\<close>, a double quote, a backslash, the controls \<^verbatim>\<open>\b \t \n \f \r \x01 \x1f\<close>, a lone
      lead surrogate, \<^verbatim>\<open>b\<close>, a surrogate pair, a lone trail surrogate\<close>
  "tricky_string =
     [0x61, 0x22, 0x5C, 0x08, 0x09, 0x0A, 0x0C, 0x0D, 0x01, 0x1F, 0xD800, 0x62,
      0xD83D, 0xDE00, 0xDC00]"

definition undefined_record :: json where
  \<comment> \<open>\<^verbatim>\<open>{ u: undefined }\<close>\<close>
  "undefined_record = JObject [(js ''u'', JUndefined)]"

definition meta_main :: jsstring where
  \<comment> \<open>the scope tag \<^verbatim>\<open>[main]\<close> and the pointer, each between the grey code and the reset code\<close>
  "meta_main =
     Colour_str GREY @ js ''[main]'' @ Colour_str RESET @ js '' '' @
     Colour_str GREY @ Figure_POINTER_SMALL @ Colour_str RESET"

definition boom :: JSError where
  \<comment> \<open>\<^verbatim>\<open>new Error("boom")\<close> with a stack of two lines\<close>
  "boom = \<lparr>err_name = js ''Error'', err_message = js ''boom'',
           err_stack = Some (js ''Error: boom'' @ [0x0A] @ js ''    at main (app.js:1:1)'')\<rparr>"

definition bare_error :: JSError where
  \<comment> \<open>an \<open>Error\<close> with the empty message and no stack, such as
      \<^verbatim>\<open>Object.create(Error.prototype)\<close>\<close>
  "bare_error = \<lparr>err_name = js ''Error'', err_message = [], err_stack = None\<rparr>"

section \<open>The level gate\<close>

lemma log_None_iff:
  "log p type args = None \<longleftrightarrow> Level_num (level type) < Level_num (hash_level p)"
  by (simp add: log_def)

lemma deref_W0: "deref W0 0 = Some P0"
  by (simp add: deref_def W0_def)

lemma P0_level: "hash_level P0 = INFO"
  by (simp add: P0_def new_Pika_def)

lemma TYPES_level:
  "level (TYPES success) = INFO" "level (TYPES warn) = WARN" "level (TYPES error) = ERROR"
  "level (TYPES fatal) = FATAL" "level (TYPES trace) = TRACE" "level (TYPES debug) = DEBUG"
  "level (TYPES info) = INFO"
  by (simp_all add: TYPES.simps createLogType_def)

lemma TYPES_stream:
  "stream (TYPES n) = (if n = error \<or> n = fatal then stderr else stdout)"
  by (cases n) (simp_all add: TYPES.simps createLogType_def)

text \<open>
  C1. A call of a logging method on a logger with minimum level \<open>L\<close>, for a descriptor of
  level \<open>D\<close>, writes exactly when \<open>D \<ge> L\<close>. When it writes, one chunk is appended to
  what the process has written; when it does not, the call returns the store it was
  given, nothing of the message having been built. In particular \<open>D = L\<close> writes and
  \<open>D = L - 1\<close> does not. The first three conjuncts are about \<open>#log\<close> with any descriptor,
  the last about the seven methods.
\<close>

theorem gate_writes_iff_level_reached:
  assumes "deref w this = Some p"
  shows "(log p type args \<noteq> None \<longleftrightarrow> Level_num (hash_level p) \<le> Level_num (level type))
       \<and> (level type = hash_level p \<longrightarrow> log p type args \<noteq> None)
       \<and> (Suc (Level_num (level type)) = Level_num (hash_level p) \<longrightarrow> log p type args = None)
       \<and> (\<exists>w'. logMethod n w this args = Some w' \<and>
            (if Level_num (hash_level p) \<le> Level_num (level (TYPES n))
             then \<exists>chunk. w' = w\<lparr>written := written w @ [chunk]\<rparr>
             else w' = w))"
proof -
  have a: "log p type args \<noteq> None \<longleftrightarrow> Level_num (hash_level p) \<le> Level_num (level type)"
    by (simp add: log_None_iff not_less)
  have b: "level type = hash_level p \<longrightarrow> log p type args \<noteq> None"
    by (simp add: log_None_iff)
  have c: "Suc (Level_num (level type)) = Level_num (hash_level p) \<longrightarrow> log p type args = None"
    by (auto simp: log_None_iff)
  have d: "\<exists>w'. logMethod n w this args = Some w' \<and>
            (if Level_num (hash_level p) \<le> Level_num (level (TYPES n))
             then \<exists>chunk. w' = w\<lparr>written := written w @ [chunk]\<rparr>
             else w' = w)"
  proof (cases "log p (TYPES n) args")
    case None
    then have "\<not> Level_num (hash_level p) \<le> Level_num (level (TYPES n))"
      by (simp add: log_None_iff)
    with None assms show ?thesis
      by (simp add: logMethod_def)
  next
    case (Some chunk)
    then have reached: "Level_num (hash_level p) \<le> Level_num (level (TYPES n))"
      using log_None_iff [of p "TYPES n" args] by simp
    from Some assms
    have "logMethod n w this args = Some (w\<lparr>written := written w @ [chunk]\<rparr>)"
      by (simp add: logMethod_def)
    moreover
    have "\<exists>c. w\<lparr>written := written w @ [chunk]\<rparr> = w\<lparr>written := written w @ [c]\<rparr>"
      by (rule exI [of _ chunk]) (rule refl)
    ultimately show ?thesis
      using reached by (simp del: split_paired_Ex)
  qed
  from a b c d show ?thesis by blast
qed

theorem gate_witness:
  "deref W0 0 = Some P0
   \<and> log P0 (TYPES info) [] \<noteq> None
   \<and> log P0 (TYPES debug) [] = None
   \<and> (\<exists>w'. logMethod debug W0 0 [] = Some w' \<and> w' = W0)"
  using gate_writes_iff_level_reached [OF deref_W0, of "TYPES info" "[]" debug]
    gate_writes_iff_level_reached [OF deref_W0, of "TYPES debug" "[]" debug]
  by (simp add: deref_W0 P0_level TYPES_level)

section \<open>Routing and the trailing newline\<close>

text \<open>
  C9. A call that passes the gate appends one chunk to what the process has written:
  for \<open>success\<close>, \<open>warn\<close>, \<open>trace\<close>, \<open>debug\<close> and \<open>info\<close> on the standard output, for
  \<open>error\<close> and \<open>fatal\<close> on the standard error, and the chunk is the composed, redacted
  line followed by one newline.
\<close>

theorem write_routed_with_newline:
  assumes "deref w this = Some p"
    and "Level_num (hash_level p) \<le> Level_num (level (TYPES n))"
  shows "logMethod n w this args =
           Some (w\<lparr>written := written w @
                    [(if n = error \<or> n = fatal then stderr else stdout,
                      filterSecrets p (buildMessage p (TYPES n) args) @ [0x0A])]\<rparr>)"
  using assms by (simp add: logMethod_def log_def TYPES_stream nl_def not_less [symmetric])

theorem write_routed_witness:
  "deref W0 0 = Some P0
   \<and> Level_num (hash_level P0) \<le> Level_num (level (TYPES fatal))
   \<and> logMethod fatal W0 0 [] =
       Some (W0\<lparr>written := written W0 @
                [(stderr, filterSecrets P0 (buildMessage P0 (TYPES fatal) []) @ [0x0A])]\<rparr>)"
  using write_routed_with_newline [OF deref_W0, of fatal "[]"]
  by (simp add: deref_W0 P0_level TYPES_level)

section \<open>The default colour decision\<close>

text \<open>
  C10. A signal is present when its variable is set to a non-empty string, which is how
  the code reads it. When \<open>NO_COLOR\<close> or \<open>NODE_DISABLE_COLORS\<close> is present the decision
  is "no colours", whatever \<open>FORCE_COLOR\<close> says; when only \<open>FORCE_COLOR\<close> is present it
  is "colours"; \<open>isTTY\<close> decides when none of the three is present, and has no influence
  otherwise.
\<close>

theorem disable_signals_win_over_force:
  "(truthy (NO_COLOR env) \<or> truthy (NODE_DISABLE_COLORS env) \<longrightarrow> \<not> shouldUseColors env)
 \<and> (\<not> truthy (NO_COLOR env) \<and> \<not> truthy (NODE_DISABLE_COLORS env) \<and> truthy (FORCE_COLOR env)
      \<longrightarrow> shouldUseColors env)
 \<and> (\<not> truthy (NO_COLOR env) \<and> \<not> truthy (NODE_DISABLE_COLORS env) \<and> \<not> truthy (FORCE_COLOR env)
      \<longrightarrow> shouldUseColors env = (isTTY env = Some True))
 \<and> (truthy (NO_COLOR env) \<or> truthy (NODE_DISABLE_COLORS env) \<or> truthy (FORCE_COLOR env)
      \<longrightarrow> shouldUseColors (env\<lparr>isTTY := t\<rparr>) = shouldUseColors env)"
  by (auto simp: shouldUseColors_def split: option.splits)

theorem disable_signals_witness:
  "truthy (NO_COLOR (env0\<lparr>NO_COLOR := Some (js ''1''), FORCE_COLOR := Some (js ''1'')\<rparr>))
 \<and> truthy (FORCE_COLOR (env0\<lparr>NO_COLOR := Some (js ''1''), FORCE_COLOR := Some (js ''1'')\<rparr>))
 \<and> \<not> shouldUseColors (env0\<lparr>NO_COLOR := Some (js ''1''), FORCE_COLOR := Some (js ''1'')\<rparr>)
 \<and> shouldUseColors (env0\<lparr>FORCE_COLOR := Some (js ''1''), isTTY := None\<rparr>)
 \<and> shouldUseColors env0"
  using disable_signals_win_over_force
          [of "env0\<lparr>NO_COLOR := Some (js ''1''), FORCE_COLOR := Some (js ''1'')\<rparr>"]
        disable_signals_win_over_force [of "env0\<lparr>FORCE_COLOR := Some (js ''1''), isTTY := None\<rparr>"]
        disable_signals_win_over_force [of env0]
  by (simp add: env0_def js_def)

section \<open>The builder methods\<close>

lemma deref_alloc_old:
  "deref w a = Some q \<Longrightarrow> deref (snd (alloc p w)) a = Some q"
  by (auto simp: deref_def alloc_def nth_append split: if_splits)

lemma deref_alloc_new:
  "deref (snd (alloc p w)) (fst (alloc p w)) = Some p"
  by (simp add: deref_def alloc_def)

lemma alloc_fresh:
  "deref w (fst (alloc p w)) = None"
  by (simp add: deref_def alloc_def)

lemma written_alloc:
  "written (snd (alloc p w)) = written w"
  by (simp add: alloc_def)

lemma logMethod_written_cong:
  assumes "deref w' this = deref w this" and "written w' = written w"
  shows "map_option written (logMethod n w' this args) = map_option written (logMethod n w this args)"
  using assms by (simp add: logMethod_def split: option.splits)

lemma alloc_new_instance_receiver_kept:
  assumes "deref w this = Some p"
  shows "new_instance_receiver_kept w this p (Some (alloc q w))"
proof -
  obtain r w' where rw: "alloc q w = (r, w')"
    by (cases "alloc q w")
  have fresh: "deref w r = None"
    using alloc_fresh [of w q] rw by simp
  have new: "deref w' r = Some q"
    using deref_alloc_new [of q w] rw by simp
  have old: "deref w' a = Some o'" if "deref w a = Some o'" for a o'
    using deref_alloc_old [OF that, of q] rw by simp
  have wr: "written w' = written w"
    using written_alloc [of q w] rw by simp
  have this': "deref w' this = Some p"
    using old assms by simp
  have "r \<noteq> this"
    using fresh assms by auto
  moreover have "map_option written (logMethod n w' this args) =
                 map_option written (logMethod n w this args)" for n args
    by (rule logMethod_written_cong) (simp_all add: this' assms wr)
  ultimately show ?thesis
    unfolding new_instance_receiver_kept_def using rw fresh new this' old wr by auto
qed

text \<open>
  C2. Each of \<open>scope\<close>, \<open>level\<close>, \<open>secrets\<close> and \<open>clone\<close> returns a new instance and leaves
  the receiver as it was, in the sense of \<open>new_instance_receiver_kept\<close>.
\<close>

theorem builders_never_mutate_receiver:
  assumes "deref w this = Some p"
  shows "new_instance_receiver_kept w this p (Pika_scope env w this s)
       \<and> new_instance_receiver_kept w this p (Pika_level env w this lv)
       \<and> new_instance_receiver_kept w this p (Pika_secrets env w this ns)
       \<and> new_instance_receiver_kept w this p (Pika_clone env w this overrides)"
  using assms
  by (simp add: Pika_scope_def Pika_level_def Pika_secrets_def Pika_clone_def
        alloc_new_instance_receiver_kept)

theorem builders_witness:
  "deref W0 0 = Some P0
   \<and> new_instance_receiver_kept W0 0 P0 (Pika_scope env0 W0 0 (js ''db''))
   \<and> new_instance_receiver_kept W0 0 P0 (Pika_level env0 W0 0 TRACE)
   \<and> new_instance_receiver_kept W0 0 P0 (Pika_secrets env0 W0 0 [js ''apiKey''])
   \<and> new_instance_receiver_kept W0 0 P0 (Pika_clone env0 W0 0 (get_options P0))"
  using builders_never_mutate_receiver [OF deref_W0] deref_W0 by simp

text \<open>
  C3. \<open>secrets(n1, ..., nk)\<close> on a logger whose secret list is \<open>S\<close> returns a logger
  whose secret list is \<open>S\<close> followed by \<open>n1, ..., nk\<close>: nothing of \<open>S\<close> is dropped, and
  every name is kept however often it occurs. Scope, level and colour flag are those of
  the receiver.
\<close>

theorem secrets_appends_in_order:
  assumes "deref w this = Some p"
  shows "\<exists>r w' q. Pika_secrets env w this ns = Some (r, w')
           \<and> deref w' r = Some q
           \<and> hash_secrets q = hash_secrets p @ ns
           \<and> (\<forall>x. count_list (hash_secrets q) x = count_list (hash_secrets p) x + count_list ns x)
           \<and> hash_scope q = hash_scope p \<and> hash_level q = hash_level p
           \<and> hash_useColors q = hash_useColors p"
proof -
  define q where "q = new_Pika env ((get_options p)\<lparr>opt_secrets := Value (hash_secrets p @ ns)\<rparr>)"
  have res: "Pika_secrets env w this ns = Some (fst (alloc q w), snd (alloc q w))"
    using assms by (simp add: Pika_secrets_def q_def)
  have fields: "hash_secrets q = hash_secrets p @ ns" "hash_scope q = hash_scope p"
    "hash_level q = hash_level p" "hash_useColors q = hash_useColors p"
    by (simp_all add: q_def new_Pika_def get_options_def)
  have "count_list (hash_secrets q) x = count_list (hash_secrets p) x + count_list ns x" for x
    by (simp add: fields)
  with res fields deref_alloc_new [of q w] show ?thesis
    by blast
qed

theorem secrets_appends_witness:
  "deref W0 0 = Some P0
   \<and> (\<exists>r w' q. Pika_secrets env0 W0 0 [js ''password123'', js ''apiKey''] = Some (r, w')
         \<and> deref w' r = Some q
         \<and> hash_secrets q = [js ''password123'', js ''password123'', js ''apiKey''])"
proof -
  have "hash_secrets P0 = [js ''password123'']"
    by (simp add: P0_def new_Pika_def)
  with secrets_appends_in_order [OF deref_W0, of env0 "[js ''password123'', js ''apiKey'']"]
    deref_W0
  show ?thesis
    by auto
qed

section \<open>Redaction\<close>

text \<open>
  Facts about \<open>replaceAll\<close>. When \<open>S\<close> does not overlap the replacement, an
  occurrence of \<open>S\<close> in the result lies in text that was copied, so it was an occurrence
  before; and the result has the replacement wherever the pattern was found.
\<close>

lemma str_includes_sublist: "str_includes t s \<longleftrightarrow> sublist s t"
  by (induction t) (simp_all add: sublist_Cons_right)

lemma overlaps_iff:
  "overlaps s r \<longleftrightarrow>
     sublist s r \<or> sublist r s
     \<or> (\<exists>u. u \<noteq> [] \<and> suffix u r \<and> prefix u s)
     \<or> (\<exists>u. u \<noteq> [] \<and> suffix u s \<and> prefix u r)"
  by (auto simp: overlaps_def str_includes_sublist list_ex_iff)

lemma sublist_skip_replacement:
  assumes "\<not> overlaps S r" and "S \<noteq> []" and "sublist S (r @ u)"
  shows "sublist S u"
proof -
  from assms(3) consider "sublist S r" | "sublist S u"
    | xs1 xs2 where "S = xs1 @ xs2" "suffix xs1 r" "prefix xs2 u"
    by (auto simp: sublist_append)
  then show ?thesis
  proof cases
    case 1
    with assms(1) show ?thesis by (simp add: overlaps_iff)
  next
    case 2
    then show ?thesis .
  next
    case 3
    show ?thesis
    proof (cases "xs1 = []")
      case True
      with 3 show ?thesis by (simp add: prefix_imp_sublist)
    next
      case False
      with 3 have "xs1 \<noteq> [] \<and> suffix xs1 r \<and> prefix xs1 S" by simp
      with assms(1) show ?thesis by (auto simp: overlaps_iff)
    qed
  qed
qed

lemma sublist_around_replacement:
  assumes "\<not> overlaps S r" and "S \<noteq> []" and "sublist S (w @ r @ v)"
  shows "sublist S w \<or> sublist S v"
proof -
  from assms(3) consider "sublist S w" | "sublist S (r @ v)"
    | xs1 xs2 where "S = xs1 @ xs2" "suffix xs1 w" "prefix xs2 (r @ v)"
    by (auto simp: sublist_append)
  then show ?thesis
  proof cases
    case 1
    then show ?thesis by simp
  next
    case 2
    with assms(1,2) show ?thesis by (simp add: sublist_skip_replacement)
  next
    case 3
    from 3(3) consider "prefix xs2 r" | us where "xs2 = r @ us"
      by (auto simp: prefix_append)
    then show ?thesis
    proof cases
      case 1
      show ?thesis
      proof (cases "xs2 = []")
        case True
        with 3 show ?thesis by (simp add: suffix_imp_sublist)
      next
        case False
        with 1 3(1) have "xs2 \<noteq> [] \<and> suffix xs2 S \<and> prefix xs2 r" by (simp add: suffixI)
        with assms(1) show ?thesis by (auto simp: overlaps_iff)
      qed
    next
      case 2
      with 3(1) have "sublist r S" by simp
      with assms(1) show ?thesis by (simp add: overlaps_iff)
    qed
  qed
qed

lemma sublist_replaceAll_origin_ctx:
  "\<not> overlaps S r \<Longrightarrow> S \<noteq> [] \<Longrightarrow> sublist S (w @ replaceAll s r t) \<Longrightarrow> sublist S (w @ t)"
proof (induction s r t arbitrary: w rule: replaceAll.induct)
  case (1 s r)
  show ?case
  proof (cases "s = []")
    case True
    with "1.prems" have "sublist S (w @ r @ [])" by simp
    with "1.prems"(1,2) have "sublist S w \<or> sublist S []"
      by (rule sublist_around_replacement)
    with "1.prems"(2) show ?thesis by simp
  next
    case False
    with "1.prems" show ?thesis by simp
  qed
next
  case (2 s r c cs)
  consider (empty) "s = []" | (hit) "s \<noteq> []" "prefix s (c # cs)" | (miss) "s \<noteq> []" "\<not> prefix s (c # cs)"
    by blast
  then show ?case
  proof cases
    case empty
    with "2.prems"(3) have "sublist S (w @ r @ (c # replaceAll s r cs))" by simp
    with "2.prems"(1,2) have "sublist S w \<or> sublist S (c # replaceAll s r cs)"
      by (rule sublist_around_replacement)
    then show ?thesis
    proof
      assume "sublist S w"
      then show ?thesis by (metis sublist_append)
    next
      assume "sublist S (c # replaceAll s r cs)"
      then have "sublist S ([c] @ replaceAll s r cs)" by simp
      with "2.IH"(1) [OF empty "2.prems"(1,2)] have "sublist S ([c] @ cs)" .
      then have "sublist S (c # cs)" by simp
      then show ?thesis by (metis sublist_append)
    qed
  next
    case hit
    with "2.prems"(3) have "sublist S (w @ r @ replaceAll s r (drop (length s) (c # cs)))" by simp
    with "2.prems"(1,2) have "sublist S w \<or> sublist S (replaceAll s r (drop (length s) (c # cs)))"
      by (rule sublist_around_replacement)
    then show ?thesis
    proof
      assume "sublist S w"
      then show ?thesis by (metis sublist_append)
    next
      assume "sublist S (replaceAll s r (drop (length s) (c # cs)))"
      then have "sublist S ([] @ replaceAll s r (drop (length s) (c # cs)))" by simp
      with "2.IH"(2) [OF hit "2.prems"(1,2)] have "sublist S ([] @ drop (length s) (c # cs))" .
      then have "sublist S (drop (length s) (c # cs))" by simp
      moreover have "sublist (drop (length s) (c # cs)) (c # cs)" by (rule sublist_drop)
      ultimately have "sublist S (c # cs)" using sublist_order.order_trans by blast
      then show ?thesis by (metis sublist_append)
    qed
  next
    case miss
    with "2.prems"(3) have "sublist S ((w @ [c]) @ replaceAll s r cs)" by simp
    with "2.IH"(3) [OF miss "2.prems"(1,2)] have "sublist S ((w @ [c]) @ cs)" .
    then show ?thesis by simp
  qed
qed

lemma sublist_replaceAll_origin:
  "\<not> overlaps S r \<Longrightarrow> S \<noteq> [] \<Longrightarrow> sublist S (replaceAll s r t) \<Longrightarrow> sublist S t"
  using sublist_replaceAll_origin_ctx [of S r "[]" s t] by simp

lemma starts_in_Nil: "S \<noteq> [] \<Longrightarrow> \<not> starts_in S [] t"
  by (auto simp: starts_in_def)

lemma starts_in_snoc:
  assumes "S \<noteq> []" "\<not> prefix S (c # cs)" "\<not> starts_in S w (c # cs)"
  shows "\<not> starts_in S (w @ [c]) cs"
proof
  assume "starts_in S (w @ [c]) cs"
  then consider "sublist S (w @ [c])"
    | xs1 xs2 where "S = xs1 @ xs2" "xs1 \<noteq> []" "suffix xs1 (w @ [c])" "prefix xs2 cs"
    by (auto simp: starts_in_def)
  then show False
  proof cases
    case 1
    then consider "sublist S w" | "sublist S [c]"
      | ys1 ys2 where "S = ys1 @ ys2" "suffix ys1 w" "prefix ys2 [c]"
      by (auto simp: sublist_append)
    then show False
    proof cases
      case 1
      with assms(3) show False by (simp add: starts_in_def)
    next
      case 2
      with assms(1) have "S = [c]"
        by (cases S) (auto simp: sublist_Cons_right)
      with assms(2) show False by simp
    next
      case 3
      from 3(3) have p: "prefix ys2 (c # cs)"
        by (cases ys2) auto
      show False
      proof (cases "ys1 = []")
        case True
        with 3(1) p assms(2) show False by simp
      next
        case False
        with 3 p assms(3) show False by (auto simp: starts_in_def)
      qed
    qed
  next
    case 2
    from 2(2,3) obtain ys where ys: "xs1 = ys @ [c]" "suffix ys w"
      by (cases xs1 rule: rev_cases) (auto simp: suffix_def)
    with 2(1,4) have S: "S = ys @ (c # xs2)" and p: "prefix (c # xs2) (c # cs)"
      by simp_all
    show False
    proof (cases "ys = []")
      case True
      with S p assms(2) show False by simp
    next
      case False
      with S p ys(2) assms(3) show False by (auto simp: starts_in_def)
    qed
  qed
qed

lemma replaceAll_removes_ctx:
  "\<not> overlaps S r \<Longrightarrow> S \<noteq> [] \<Longrightarrow> \<not> starts_in S w t \<Longrightarrow> \<not> sublist S (w @ replaceAll S r t)"
proof (induction S r t arbitrary: w rule: replaceAll.induct)
  case (1 s r)
  then show ?case by (simp add: starts_in_def)
next
  case (2 s r c cs)
  show ?case
  proof (cases "prefix s (c # cs)")
    case True
    show ?thesis
    proof
      assume "sublist s (w @ replaceAll s r (c # cs))"
      with True "2.prems"(2) have "sublist s (w @ r @ replaceAll s r (drop (length s) (c # cs)))"
        by simp
      with "2.prems"(1,2) have "sublist s w \<or> sublist s (replaceAll s r (drop (length s) (c # cs)))"
        by (rule sublist_around_replacement)
      moreover have "\<not> sublist s w"
        using "2.prems"(3) by (simp add: starts_in_def)
      moreover have "\<not> sublist s ([] @ replaceAll s r (drop (length s) (c # cs)))"
        using "2.IH"(2) [OF "2.prems"(2) True "2.prems"(1,2)] starts_in_Nil [OF "2.prems"(2)] by blast
      ultimately show False by simp
    qed
  next
    case False
    have "\<not> starts_in s (w @ [c]) cs"
      using starts_in_snoc [OF "2.prems"(2) False "2.prems"(3)] .
    with "2.IH"(3) [OF "2.prems"(2) False "2.prems"(1,2)]
    have "\<not> sublist s ((w @ [c]) @ replaceAll s r cs)" .
    with False "2.prems"(2) show ?thesis by simp
  qed
qed

lemma replaceAll_removes:
  "\<not> overlaps S r \<Longrightarrow> S \<noteq> [] \<Longrightarrow> \<not> sublist S (replaceAll S r t)"
  using replaceAll_removes_ctx [of S r "[]" t] starts_in_Nil [of S t] by simp

lemma bracket_free_no_overlap:
  assumes "S \<noteq> []" "0x5B \<notin> set S" "0x5D \<notin> set S" "\<not> str_includes (js ''REDACTED'') S"
  shows "\<not> overlaps S (js ''[REDACTED]'')"
proof
  assume "overlaps S (js ''[REDACTED]'')"
  then consider "sublist S (js ''[REDACTED]'')" | "sublist (js ''[REDACTED]'') S"
    | u where "u \<noteq> []" "suffix u (js ''[REDACTED]'')" "prefix u S"
    | u where "u \<noteq> []" "suffix u S" "prefix u (js ''[REDACTED]'')"
    by (auto simp: overlaps_iff)
  then show False
  proof cases
    case 1
    have e: "js ''[REDACTED]'' = 0x5B # js ''REDACTED'' @ [0x5D]"
      by (simp add: js_def)
    from 1 have "sublist S (js ''REDACTED'' @ [0x5D])"
      using assms(1,2) unfolding e by (cases S) (auto simp: sublist_Cons_right)
    then have "sublist (rev S) (0x5D # rev (js ''REDACTED''))"
      by (metis rev.simps(2) rev_append rev_rev_ident sublist_rev append_Nil rev.simps(1) append_Cons)
    then have "sublist (rev S) (rev (js ''REDACTED''))"
      using assms(1,3) by (cases "rev S") (auto simp: sublist_Cons_right)
    then have "sublist S (js ''REDACTED'')"
      by simp
    with assms(4) show False by (simp add: str_includes_sublist)
  next
    case 2
    then have "set (js ''[REDACTED]'') \<subseteq> set S" by (rule set_mono_sublist)
    with assms(2) show False by (simp add: js_def)
  next
    case 3
    from 3(2) 3(1) have "last u = 0x5D"
      by (auto simp: suffix_def js_def) (metis last.simps last_append list.distinct(1))
    with 3(1) have "0x5D \<in> set u" by (metis last_in_set)
    with 3(3) assms(3) show False by (auto dest: set_mono_prefix)
  next
    case 4
    from 4(3) 4(1) have "hd u = 0x5B"
      by (cases u) (auto simp: js_def)
    with 4(1) have "0x5B \<in> set u" by (metis hd_in_set)
    with 4(2) assms(2) show False by (auto dest: set_mono_suffix)
  qed
qed

lemma replaceAll_puts_replacement:
  "sublist s t \<Longrightarrow> sublist r (replaceAll s r t)"
proof (induction s r t rule: replaceAll.induct)
  case (1 s r)
  then show ?case by simp
next
  case (2 s r c cs)
  show ?case
  proof (cases "s = [] \<or> prefix s (c # cs)")
    case True
    then show ?thesis by auto
  next
    case False
    with "2.prems" have "sublist s cs"
      by (simp add: sublist_Cons_right)
    with "2.IH"(3) False have "sublist r (replaceAll s r cs)"
      by simp
    with False show ?thesis
      by (simp add: sublist_Cons_right)
  qed
qed

lemma replaceAll_absent:
  "\<not> sublist s t \<Longrightarrow> replaceAll s r t = t"
proof (induction s r t rule: replaceAll.induct)
  case (1 s r)
  then show ?case by auto
next
  case (2 s r c cs)
  then have "s \<noteq> []" "\<not> prefix s (c # cs)" "\<not> sublist s cs"
    by (auto simp: sublist_Cons_right)
  with "2.IH"(3) show ?case by simp
qed

lemma replaceAll_keeps_replacement:
  "sublist r t \<Longrightarrow> sublist r (replaceAll s r t)"
  by (cases "sublist s t") (simp_all add: replaceAll_puts_replacement replaceAll_absent)


lemma replaceAll_leftmost:
  "S \<noteq> [] \<Longrightarrow> \<not> sublist S (pre @ butlast S) \<Longrightarrow>
   replaceAll S r (pre @ S @ post) = pre @ r @ replaceAll S r post"
proof (induction pre)
  case Nil
  then obtain a S' where S: "S = a # S'" by (cases S) auto
  have "replaceAll S r (a # S' @ post) = r @ replaceAll S r (drop (length S) (a # S' @ post))"
    using S by simp
  then show ?case using S by simp
next
  case (Cons a pre)
  have np: "\<not> prefix S (a # pre @ S @ post)"
  proof
    assume "prefix S (a # pre @ S @ post)"
    moreover have "(butlast S @ [last S]) @ post = S @ post"
      using append_butlast_last_id [OF Cons.prems(1)] by (rule arg_cong [where f = "\<lambda>x. x @ post"])
    then have "S @ post = butlast S @ last S # post"
      by simp
    ultimately have "prefix S (((a # pre) @ butlast S) @ (last S # post))"
      by simp
    moreover have "length S \<le> length ((a # pre) @ butlast S)"
      by simp
    ultimately have "prefix S ((a # pre) @ butlast S)"
      by (metis prefix_length_prefix prefixI)
    with Cons.prems(2) show False
      by (simp add: prefix_imp_sublist)
  qed
  have "\<not> sublist S (pre @ butlast S)"
    using Cons.prems(2) by (simp add: sublist_Cons_right)
  with Cons.IH Cons.prems(1) have "replaceAll S r (pre @ S @ post) = pre @ r @ replaceAll S r post"
    by simp
  with np Cons.prems(1) show ?case by simp
qed

lemma filterSecrets_foldl:
  "filterSecrets p input = foldl redactStep input (hash_secrets p)"
  by (cases "hash_secrets p") (simp_all add: filterSecrets_def)

lemma foldl_keeps_absent:
  "S \<noteq> [] \<Longrightarrow> \<not> overlaps S (js ''[REDACTED]'') \<Longrightarrow> \<not> sublist S u \<Longrightarrow>
   \<not> sublist S (foldl redactStep u ys)"
proof (induction ys arbitrary: u)
  case Nil
  then show ?case by simp
next
  case (Cons y ys)
  have "\<not> sublist S (redactStep u y)"
    using sublist_replaceAll_origin [OF Cons.prems(2,1)] Cons.prems(3)
    unfolding redactStep_def by blast
  with Cons.IH Cons.prems(1,2) show ?case by simp
qed

lemma foldl_removes:
  "S \<in> set ss \<Longrightarrow> S \<noteq> [] \<Longrightarrow> \<not> overlaps S (js ''[REDACTED]'') \<Longrightarrow>
   \<not> sublist S (foldl redactStep u ss)"
proof (induction ss arbitrary: u)
  case Nil
  then show ?case by simp
next
  case (Cons x xs)
  show ?case
  proof (cases "x = S")
    case True
    have "\<not> sublist S (redactStep u S)"
      unfolding redactStep_def
      by (rule replaceAll_removes [OF Cons.prems(3,2)])
    with True show ?thesis
      using foldl_keeps_absent [OF Cons.prems(2,3)] by simp
  next
    case False
    with Cons.prems(1) have "S \<in> set xs" by simp
    with Cons.IH Cons.prems(2,3) show ?thesis by simp
  qed
qed

lemma foldl_puts_placeholder:
  "sublist (js ''[REDACTED]'') u \<or> (\<exists>S \<in> set ss. sublist S u) \<Longrightarrow>
   sublist (js ''[REDACTED]'') (foldl redactStep u ss)"
proof (induction ss arbitrary: u)
  case Nil
  then show ?case by simp
next
  case (Cons x xs)
  have "sublist (js ''[REDACTED]'') (redactStep u x) \<or> (\<exists>S \<in> set xs. sublist S (redactStep u x))"
  proof (cases "sublist x u")
    case True
    then show ?thesis
      by (simp add: redactStep_def replaceAll_puts_replacement)
  next
    case False
    then have same: "redactStep u x = u"
      by (simp add: redactStep_def replaceAll_absent)
    from Cons.prems False have "sublist (js ''[REDACTED]'') u \<or> (\<exists>S \<in> set xs. sublist S u)"
      by auto
    with same show ?thesis by simp
  qed
  with Cons.IH [of "redactStep u x"] show ?case by simp
qed

lemma foldl_absent:
  "\<forall>s \<in> set ys. \<not> sublist s v \<Longrightarrow> foldl redactStep v ys = v"
  by (induction ys) (simp_all add: redactStep_def replaceAll_absent)


lemma P0_secrets: "hash_secrets P0 = [js ''password123'']"
  by (simp add: P0_def new_Pika_def)

text \<open>
  C4, as stated, fails for a secret that occurs in the placeholder: with the secret list
  \<^verbatim>\<open>["RED"]\<close> the line \<^verbatim>\<open>RED alert\<close> becomes \<^verbatim>\<open>[REDACTED] alert\<close>, which contains \<^verbatim>\<open>RED\<close>.
\<close>

theorem redaction_leaves_secret_counterexample:
  "hash_secrets Q0 \<noteq> []
   \<and> js ''RED'' \<in> set (hash_secrets Q0)
   \<and> str_includes (js ''RED alert'') (js ''RED'')
   \<and> filterSecrets Q0 (js ''RED alert'') = js ''[REDACTED] alert''
   \<and> str_includes (filterSecrets Q0 (js ''RED alert'')) (js ''RED'')"
  by (simp add: filterSecrets_def redactStep_def Q0_def js_def)

text \<open>
  C4, amended. For a registered secret \<open>S\<close> and a line \<open>T\<close>:
  \<^item> if \<open>S\<close> occurs in \<open>T\<close>, the redacted line contains \<^verbatim>\<open>[REDACTED]\<close>;
  \<^item> if \<open>S\<close> is not empty and does not overlap the placeholder, the redacted line
    contains no occurrence of \<open>S\<close>, whatever the other secrets are; this covers every
    non-empty secret without a bracket that does not occur in \<^verbatim>\<open>REDACTED\<close>;
  \<^item> the secrets are applied in stored order: redacting with the list \<open>xs @ ys\<close> is
    redacting with \<open>xs\<close>, then with \<open>ys\<close>, and redacting with the list \<open>[S]\<close> is
    \<open>replaceAll\<close> for \<open>S\<close>;
  \<^item> \<open>replaceAll\<close> puts the placeholder at each occurrence it finds scanning from the
    left: at the leftmost occurrence of \<open>S\<close>, with the text before it kept, and then in
    the text after that occurrence in the same way;
  \<^item> a line in which no registered secret occurs is left as it is;
  \<^item> a non-empty secret that occurs in the placeholder is what the condition has to
    exclude: redacting such a secret itself leaves the secret in the line.
\<close>

theorem redaction_of_registered_secret:
  assumes "S \<in> set (hash_secrets p)"
  shows "(str_includes T S \<longrightarrow> str_includes (filterSecrets p T) (js ''[REDACTED]''))
       \<and> (S \<noteq> [] \<and> \<not> overlaps S (js ''[REDACTED]'') \<longrightarrow> \<not> str_includes (filterSecrets p T) S)
       \<and> (S \<noteq> [] \<and> 0x5B \<notin> set S \<and> 0x5D \<notin> set S \<and> \<not> str_includes (js ''REDACTED'') S
            \<longrightarrow> \<not> str_includes (filterSecrets p T) S)
       \<and> (\<forall>xs ys. hash_secrets p = xs @ ys \<longrightarrow>
             filterSecrets p T =
               filterSecrets (p\<lparr>hash_secrets := ys\<rparr>) (filterSecrets (p\<lparr>hash_secrets := xs\<rparr>) T))
       \<and> filterSecrets (p\<lparr>hash_secrets := [S]\<rparr>) T = replaceAll S (js ''[REDACTED]'') T
       \<and> (\<forall>pre post. S \<noteq> [] \<and> \<not> str_includes (pre @ butlast S) S \<longrightarrow>
             replaceAll S (js ''[REDACTED]'') (pre @ S @ post) =
               pre @ js ''[REDACTED]'' @ replaceAll S (js ''[REDACTED]'') post)
       \<and> ((\<forall>s \<in> set (hash_secrets p). \<not> str_includes T s) \<longrightarrow> filterSecrets p T = T)
       \<and> (S \<noteq> [] \<and> str_includes (js ''[REDACTED]'') S \<longrightarrow>
             str_includes (filterSecrets (p\<lparr>hash_secrets := [S]\<rparr>) S) S)"
proof -
  have a: "str_includes T S \<longrightarrow> str_includes (filterSecrets p T) (js ''[REDACTED]'')"
    using assms foldl_puts_placeholder [of T "hash_secrets p"]
    by (auto simp: str_includes_sublist filterSecrets_foldl)
  have b: "S \<noteq> [] \<and> \<not> overlaps S (js ''[REDACTED]'') \<longrightarrow> \<not> str_includes (filterSecrets p T) S"
    using assms foldl_removes [of S "hash_secrets p" T]
    by (auto simp: str_includes_sublist filterSecrets_foldl)
  have b': "S \<noteq> [] \<and> 0x5B \<notin> set S \<and> 0x5D \<notin> set S \<and> \<not> str_includes (js ''REDACTED'') S
            \<longrightarrow> \<not> str_includes (filterSecrets p T) S"
    using b bracket_free_no_overlap [of S] by blast
  have c: "filterSecrets p T =
             filterSecrets (p\<lparr>hash_secrets := ys\<rparr>) (filterSecrets (p\<lparr>hash_secrets := xs\<rparr>) T)"
    if "hash_secrets p = xs @ ys" for xs ys
    using that by (simp add: filterSecrets_foldl)
  have d: "filterSecrets (p\<lparr>hash_secrets := [S]\<rparr>) T = replaceAll S (js ''[REDACTED]'') T"
    by (simp add: filterSecrets_foldl redactStep_def)
  have e: "replaceAll S (js ''[REDACTED]'') (pre @ S @ post) =
             pre @ js ''[REDACTED]'' @ replaceAll S (js ''[REDACTED]'') post"
    if "S \<noteq> []" "\<not> str_includes (pre @ butlast S) S" for pre post
    using that by (simp add: replaceAll_leftmost str_includes_sublist)
  have f: "filterSecrets p T = T" if "\<forall>s \<in> set (hash_secrets p). \<not> str_includes T s"
    using that by (simp add: filterSecrets_foldl foldl_absent str_includes_sublist)
  have g: "str_includes (filterSecrets (p\<lparr>hash_secrets := [S]\<rparr>) S) S"
    if "S \<noteq> []" "str_includes (js ''[REDACTED]'') S"
  proof -
    have "length (butlast S) < length S"
      using that(1) by (cases S) simp_all
    then have "\<not> sublist S ([] @ butlast S)"
      using sublist_length_le [of S "butlast S"] by auto
    with that(1) have "replaceAll S (js ''[REDACTED]'') ([] @ S @ []) =
        [] @ js ''[REDACTED]'' @ replaceAll S (js ''[REDACTED]'') []"
      by (rule replaceAll_leftmost)
    with that show ?thesis
      by (simp add: filterSecrets_foldl redactStep_def)
  qed
  from a b b' c d e f g show ?thesis by blast
qed

theorem redaction_witness:
  "js ''password123'' \<in> set (hash_secrets P0)
   \<and> str_includes (js ''Tried to log in admin account with password password123'') (js ''password123'')
   \<and> str_includes
        (filterSecrets P0 (js ''Tried to log in admin account with password password123''))
        (js ''[REDACTED]'')
   \<and> \<not> str_includes
        (filterSecrets P0 (js ''Tried to log in admin account with password password123''))
        (js ''password123'')"
proof -
  have 1: "js ''password123'' \<in> set (hash_secrets P0)"
    by (simp add: P0_secrets)
  have 2: "str_includes (js ''Tried to log in admin account with password password123'')
             (js ''password123'')"
    by (simp add: js_def)
  have 3: "js ''password123'' \<noteq> [] \<and> \<not> overlaps (js ''password123'') (js ''[REDACTED]'')"
    by (simp add: overlaps_def js_def)
  from 1 2 3 redaction_of_registered_secret
               [OF 1, of "js ''Tried to log in admin account with password password123''"]
  show ?thesis by blast
qed

text \<open>
  C5, as stated, fails for the same secret: redacting \<^verbatim>\<open>RED\<close> gives \<^verbatim>\<open>[REDACTED]\<close>, and
  redacting that gives \<^verbatim>\<open>[[REDACTED]ACTED]\<close>.
\<close>

theorem redaction_twice_counterexample:
  "filterSecrets Q0 (js ''RED'') = js ''[REDACTED]''
   \<and> filterSecrets Q0 (filterSecrets Q0 (js ''RED'')) = js ''[[REDACTED]ACTED]''
   \<and> filterSecrets Q0 (filterSecrets Q0 (js ''RED'')) \<noteq> filterSecrets Q0 (js ''RED'')"
  by (simp add: filterSecrets_def redactStep_def Q0_def js_def)

text \<open>
  C5, amended. When every registered secret is non-empty and does not overlap the
  placeholder \<^verbatim>\<open>[REDACTED]\<close>, redacting a redacted line changes nothing. This covers
  every list of non-empty secrets without a bracket that do not occur in \<^verbatim>\<open>REDACTED\<close>.
\<close>

theorem redaction_idempotent:
  "((\<forall>s \<in> set (hash_secrets p). s \<noteq> [] \<and> \<not> overlaps s (js ''[REDACTED]''))
      \<longrightarrow> filterSecrets p (filterSecrets p T) = filterSecrets p T)
   \<and> ((\<forall>s \<in> set (hash_secrets p).
          s \<noteq> [] \<and> 0x5B \<notin> set s \<and> 0x5D \<notin> set s \<and> \<not> str_includes (js ''REDACTED'') s)
      \<longrightarrow> filterSecrets p (filterSecrets p T) = filterSecrets p T)"
proof -
  have main: "filterSecrets p (filterSecrets p T) = filterSecrets p T"
    if h: "\<forall>s \<in> set (hash_secrets p). s \<noteq> [] \<and> \<not> overlaps s (js ''[REDACTED]'')"
  proof -
    have "\<forall>s \<in> set (hash_secrets p). \<not> sublist s (foldl redactStep T (hash_secrets p))"
      using h foldl_removes by blast
    then show ?thesis
      by (simp add: filterSecrets_foldl foldl_absent)
  qed
  have "\<forall>s \<in> set (hash_secrets p). s \<noteq> [] \<and> \<not> overlaps s (js ''[REDACTED]'')"
    if "\<forall>s \<in> set (hash_secrets p).
          s \<noteq> [] \<and> 0x5B \<notin> set s \<and> 0x5D \<notin> set s \<and> \<not> str_includes (js ''REDACTED'') s"
    using that bracket_free_no_overlap by blast
  with main show ?thesis by blast
qed

theorem redaction_idempotent_witness:
  "hash_secrets P0 = [js ''password123'']
   \<and> js ''password123'' \<noteq> []
   \<and> filterSecrets P0 (filterSecrets P0 (js ''password password123'')) =
       filterSecrets P0 (js ''password password123'')"
proof -
  have s: "js ''password123'' \<noteq> [] \<and> \<not> overlaps (js ''password123'') (js ''[REDACTED]'')"
    by (simp add: overlaps_def js_def)
  then have h: "\<forall>s \<in> set (hash_secrets P0). s \<noteq> [] \<and> \<not> overlaps s (js ''[REDACTED]'')"
    by (simp add: P0_secrets)
  from s h P0_secrets redaction_idempotent [of P0 "js ''password password123''"] show ?thesis
    by blast
qed

section \<open>The composed line\<close>

lemma join_snoc: "xs \<noteq> [] \<Longrightarrow> join sep (xs @ [x]) = join sep xs @ sep @ x"
  by (induction sep xs rule: join.induct) simp_all

lemma headParts_nonempty: "headParts p type \<noteq> []"
  by (simp add: headParts_def)

lemma buildMessage_payload:
  "buildMessage p type (first # rest) = buildMessage p type [] @ js '' '' @ payload p first rest"
  by (simp add: join_snoc headParts_nonempty)

lemma split_nonempty: "split c xs \<noteq> []"
  by (induction xs) (simp_all split: list.splits)

lemma join_Cons_head: "join sep ((x # l) # ls) = x # join sep (l # ls)"
  by (cases ls) simp_all

lemma join_split: "join [c] (split c xs) = xs"
proof (induction xs)
  case Nil
  then show ?case by simp
next
  case (Cons x xs)
  obtain l ls where s: "split c xs = l # ls"
    using split_nonempty [of c xs] by (cases "split c xs") auto
  with Cons show ?case by (auto simp: join_Cons_head)
qed

lemma split_first_line: "split c xs = l # ls \<Longrightarrow> c \<notin> set l"
  by (induction xs arbitrary: l ls) (auto split: if_splits list.splits)

lemma formatError_no_stack:
  "err_stack e = None \<or> err_stack e = Some [] \<Longrightarrow> formatError p e = err_message e"
  by (auto simp: formatError_def)

lemma formatError_stack:
  assumes "err_stack e = Some st" "st \<noteq> []" "split 0x0A st = name # stackLines"
  shows "formatError p e = applyColor p name [UNDERLINE] @ nl @ applyColor p (join nl stackLines) [GREY]"
  using assms by (simp add: formatError_def Let_def)

lemma error_payload_empty_iff:
  "payload p (AnError e) rest = [] \<longleftrightarrow>
     (err_stack e = None \<or> err_stack e = Some []) \<and> err_message e = []"
proof (cases "err_stack e = None \<or> err_stack e = Some []")
  case True
  then show ?thesis by (simp add: formatError_no_stack)
next
  case False
  then obtain st where st: "err_stack e = Some st" "st \<noteq> []" by auto
  obtain name stackLines where "split 0x0A st = name # stackLines"
    using split_nonempty [of "0x0A" st] by (cases "split 0x0A st") auto
  with st have "payload p (AnError e) rest \<noteq> []"
    by (simp add: formatError_stack nl_def)
  with False show ?thesis by simp
qed

lemma quoteUnits_plain:
  "\<forall>c \<in> set s. escapeUnit c = [c] \<and> \<not> isLead c \<Longrightarrow> quoteUnits s = s"
  by (induction s rule: quoteUnits.induct) simp_all


lemmas line_defs =
  log_def new_Pika_def TYPES.simps createLogType_def filterSecrets_def redactStep_def
  headParts_def getMeta_def formatScope_def colour_def applyColor_def getLongestLabel_def
  Object_values_TYPES_def formatObject_def formatError_def QuoteJSONString_def escapeUnit_def
  isLead_def isTrail_def meta_main_def Figure_TICK_def Figure_INFO_def Figure_CROSS_def
  Figure_WARNING_def Figure_ELLIPSIS_def Figure_POINTER_SMALL_def ESC_def nl_def js_def

text \<open>
  C6. With colours disabled the line must hold no escape sequence. The code breaks this:
  \<open>#getMeta\<close> calls \<open>colour\<close> itself where every other part goes through
  \<open>#applyColor\<close>, so the scope tag and the pointer keep their codes. For
  \<^verbatim>\<open>pika({ scope: "main", useColors: false }).info("ready")\<close> the chunk written is the one
  below: badge, label and payload are plain, the two meta parts are not.
\<close>

theorem colours_disabled_meta_keeps_escapes:
  "\<not> hash_useColors P0
   \<and> log P0 (TYPES info) [Plain (JString (js ''ready''))] =
       Some (stdout, meta_main @ js '' '' @ Figure_INFO @ js ''  info    ready'' @ nl)
   \<and> ESC \<in> set (meta_main @ js '' '' @ Figure_INFO @ js ''  info    ready'' @ nl)
   \<and> ESC \<notin> set (js '' '' @ Figure_INFO @ js ''  info    ready'' @ nl)"
  by (simp add: P0_def line_defs)

lemma JSON_stringify_object:
  "JSON_stringify (JObject fs) =
     Some (js ''{'' @
           join (js '','')
             (map (\<lambda>(k, t). [0x22] @ quoteUnits k @ [0x22] @ js '':'' @ t)
                (concat (map (\<lambda>(k, v). case JSON_stringify v of None \<Rightarrow> [] | Some t \<Rightarrow> [(k, t)])
                           fs))) @
           js ''}'')"
proof -
  have "concat (map (\<lambda>e. case JSON_stringify (snd e) of
                            None \<Rightarrow> []
                          | Some t \<Rightarrow> [QuoteJSONString (fst e) @ js '':'' @ t]) fs) =
        map (\<lambda>(k, t). [0x22] @ quoteUnits k @ [0x22] @ js '':'' @ t)
          (concat (map (\<lambda>(k, v). case JSON_stringify v of None \<Rightarrow> [] | Some t \<Rightarrow> [(k, t)]) fs))"
    by (induction fs) (auto simp: QuoteJSONString_def split: option.splits)
  then show ?thesis by simp
qed

text \<open>
  C7, as stated, fails for a record with a property whose value is \<^verbatim>\<open>undefined\<close>:
  \<open>JSON.stringify\<close> has no text for it, and the template literal prints the word
  \<^verbatim>\<open>undefined\<close>. For \<^verbatim>\<open>debug({ u: undefined })\<close> on the README's logger the payload is
  \<^verbatim>\<open>u = undefined\<close>.
\<close>

theorem record_undefined_value_counterexample:
  "JSON_stringify JUndefined = None
   \<and> payload P1 (Plain undefined_record) [] = js ''u = undefined''
   \<and> log P1 (TYPES debug) [Plain undefined_record] =
       Some (stdout, meta_main @ js '' '' @ Figure_INFO @ js ''  debug   u = undefined'' @ nl)"
  by (simp add: P1_def undefined_record_def line_defs)

text \<open>
  C7, amended. For a first argument that is a plain record with the entries \<open>es\<close>, the
  values being plain data, the line is the line of a call without arguments, a space,
  and the entries as \<open>key = value\<close> joined by a comma and a space, \<open>value\<close> being the text
  \<open>JSON.stringify\<close> returns: the JSON text of every value other than \<^verbatim>\<open>undefined\<close>, and
  the word \<^verbatim>\<open>undefined\<close> for that one. The JSON text is
  \<^item> \<^verbatim>\<open>null\<close>, \<^verbatim>\<open>true\<close>, \<^verbatim>\<open>false\<close>, the number's own text, \<^verbatim>\<open>null\<close> for a number that is not
    finite;
  \<^item> for a string, its units between double quotes, with the escapes of JSON: as they are
    when none needs an escape, and as shown for \<open>tricky_string\<close>;
  \<^item> for an array, the texts of the elements between brackets, joined by commas,
    \<^verbatim>\<open>null\<close> for an element without a text;
  \<^item> for an object, \<^verbatim>\<open>"key":text\<close> for each property that has a text, between braces,
    joined by commas: never \<^verbatim>\<open>[object Object]\<close>; \<open>nested_record\<close> shows the nesting.
  For the README's logger and record the line written has
  \<^verbatim>\<open>endpoint = "/users/profile"\<close> and \<^verbatim>\<open>responseTime = "700ms"\<close>.
\<close>

theorem record_payload_key_value_pairs:
  "buildMessage p type (Plain (JObject es) # rest) =
     buildMessage p type [] @ js '' '' @
     join (js '', '') (map (\<lambda>(key, val). key @ js '' = '' @ template (JSON_stringify val)) es)
   \<and> (v \<noteq> JUndefined \<longrightarrow> (\<exists>t. JSON_stringify v = Some t \<and> template (JSON_stringify v) = t))
   \<and> template (JSON_stringify JUndefined) = js ''undefined''
   \<and> JSON_stringify JNull = Some (js ''null'')
   \<and> JSON_stringify (JBool True) = Some (js ''true'')
   \<and> JSON_stringify (JBool False) = Some (js ''false'')
   \<and> JSON_stringify (JNumber n) = Some n
   \<and> JSON_stringify (JNonFinite n) = Some (js ''null'')
   \<and> JSON_stringify (JString s) = Some ([0x22] @ quoteUnits s @ [0x22])
   \<and> ((\<forall>c \<in> set s. 0x20 \<le> c \<and> c \<noteq> 0x22 \<and> c \<noteq> 0x5C \<and> (c < 0xD800 \<or> 0xDFFF < c))
        \<longrightarrow> JSON_stringify (JString s) = Some ([0x22] @ s @ [0x22]))
   \<and> JSON_stringify (JString tricky_string) =
       Some ([0x22] @ js ''a'' @ [0x5C, 0x22] @ [0x5C, 0x5C] @
             [0x5C] @ js ''b'' @ [0x5C] @ js ''t'' @ [0x5C] @ js ''n'' @ [0x5C] @ js ''f'' @
             [0x5C] @ js ''r'' @ [0x5C] @ js ''u0001'' @ [0x5C] @ js ''u001f'' @
             [0x5C] @ js ''ud800'' @ js ''b'' @ [0xD83D, 0xDE00] @ [0x5C] @ js ''udc00'' @ [0x22])
   \<and> JSON_stringify (JArray xs) =
       Some (js ''['' @
             join (js '','')
               (map (\<lambda>x. case JSON_stringify x of None \<Rightarrow> js ''null'' | Some t \<Rightarrow> t) xs) @
             js '']'')
   \<and> JSON_stringify (JObject fs) =
       Some (js ''{'' @
             join (js '','')
               (map (\<lambda>(k, t). [0x22] @ quoteUnits k @ [0x22] @ js '':'' @ t)
                  (concat (map (\<lambda>(k, v). case JSON_stringify v of None \<Rightarrow> [] | Some t \<Rightarrow> [(k, t)])
                             fs))) @
             js ''}'')
   \<and> template (JSON_stringify (JObject fs)) \<noteq> js ''[object Object]''
   \<and> JSON_stringify nested_record =
       Some (js ''{'' @ [0x22] @ js ''a'' @ [0x22] @
             js '':[1,null,null,true,false,null,{'' @ [0x22] @ js ''b'' @ [0x22] @ js '':'' @
             [0x22] @ js ''x'' @ [0x22] @ js ''},[]],'' @
             [0x22] @ js ''k'' @ [0x5C, 0x22] @ [0x22] @ js '':-2.5}'')
   \<and> log P1 (TYPES debug) [Plain readme_record] =
       Some (stdout,
         meta_main @ js '' '' @ Figure_INFO @ js ''  debug   '' @
         js ''message = '' @ [0x22] @ js ''Investigating API response delay'' @ [0x22] @
         js '', responseTime = '' @ [0x22] @ js ''700ms'' @ [0x22] @
         js '', endpoint = '' @ [0x22] @ js ''/users/profile'' @ [0x22] @ nl)"
proof -
  have a: "buildMessage p type (Plain (JObject es) # rest) =
     buildMessage p type [] @ js '' '' @
     join (js '', '') (map (\<lambda>(key, val). key @ js '' = '' @ template (JSON_stringify val)) es)"
    by (simp only: buildMessage_payload payload.simps formatObject_def Object_entries.simps)
  have b: "v \<noteq> JUndefined \<longrightarrow> (\<exists>t. JSON_stringify v = Some t \<and> template (JSON_stringify v) = t)"
    by (cases v) simp_all
  have c: "template (JSON_stringify JUndefined) = js ''undefined''"
      "JSON_stringify JNull = Some (js ''null'')"
      "JSON_stringify (JBool True) = Some (js ''true'')"
      "JSON_stringify (JBool False) = Some (js ''false'')"
      "JSON_stringify (JNumber n) = Some n"
      "JSON_stringify (JNonFinite n) = Some (js ''null'')"
    by simp_all
  have d: "JSON_stringify (JString s) = Some ([0x22] @ quoteUnits s @ [0x22])"
    by (simp add: QuoteJSONString_def)
  have e: "JSON_stringify (JString s) = Some ([0x22] @ s @ [0x22])"
    if "\<forall>c \<in> set s. 0x20 \<le> c \<and> c \<noteq> 0x22 \<and> c \<noteq> 0x5C \<and> (c < 0xD800 \<or> 0xDFFF < c)"
  proof -
    have "escapeUnit c = [c] \<and> \<not> isLead c" if "c \<in> set s" for c
    proof -
      from that \<open>\<forall>c \<in> set s. _\<close>
      have h: "0x20 \<le> c" "c \<noteq> 0x22" "c \<noteq> 0x5C" "c < 0xD800 \<or> 0xDFFF < c"
        by auto
      from h(4) have ns: "\<not> isLead c" "\<not> isTrail c"
        by (auto simp: isLead_def isTrail_def word_le_nat_alt word_less_nat_alt)
      from h(1) have "c \<noteq> 0x08" "c \<noteq> 0x09" "c \<noteq> 0x0A" "c \<noteq> 0x0C" "c \<noteq> 0x0D" "\<not> c < 0x20"
        by auto
      with h ns show ?thesis
        by (simp add: escapeUnit_def)
    qed
    then have "quoteUnits s = s"
      by (simp add: quoteUnits_plain)
    with d show ?thesis by simp
  qed
  have f: "JSON_stringify (JString tricky_string) =
       Some ([0x22] @ js ''a'' @ [0x5C, 0x22] @ [0x5C, 0x5C] @
             [0x5C] @ js ''b'' @ [0x5C] @ js ''t'' @ [0x5C] @ js ''n'' @ [0x5C] @ js ''f'' @
             [0x5C] @ js ''r'' @ [0x5C] @ js ''u0001'' @ [0x5C] @ js ''u001f'' @
             [0x5C] @ js ''ud800'' @ js ''b'' @ [0xD83D, 0xDE00] @ [0x5C] @ js ''udc00'' @ [0x22])"
    by (simp add: tricky_string_def QuoteJSONString_def escapeUnit_def UnicodeEscape_def
          hexDigit_def isLead_def isTrail_def js_def)
  have g: "JSON_stringify (JArray xs) =
       Some (js ''['' @
             join (js '','')
               (map (\<lambda>x. case JSON_stringify x of None \<Rightarrow> js ''null'' | Some t \<Rightarrow> t) xs) @
             js '']'')"
    by simp
  note h = JSON_stringify_object [of fs]
  have i: "template (JSON_stringify (JObject fs)) \<noteq> js ''[object Object]''"
    by (simp add: js_def)
  have j: "JSON_stringify nested_record =
       Some (js ''{'' @ [0x22] @ js ''a'' @ [0x22] @
             js '':[1,null,null,true,false,null,{'' @ [0x22] @ js ''b'' @ [0x22] @ js '':'' @
             [0x22] @ js ''x'' @ [0x22] @ js ''},[]],'' @
             [0x22] @ js ''k'' @ [0x5C, 0x22] @ [0x22] @ js '':-2.5}'')"
    by (simp add: nested_record_def QuoteJSONString_def escapeUnit_def isLead_def isTrail_def js_def)
  have k: "log P1 (TYPES debug) [Plain readme_record] =
       Some (stdout,
         meta_main @ js '' '' @ Figure_INFO @ js ''  debug   '' @
         js ''message = '' @ [0x22] @ js ''Investigating API response delay'' @ [0x22] @
         js '', responseTime = '' @ [0x22] @ js ''700ms'' @ [0x22] @
         js '', endpoint = '' @ [0x22] @ js ''/users/profile'' @ [0x22] @ nl)"
    by (simp add: P1_def readme_record_def line_defs)
  from a b c d e f g h i j k show ?thesis by blast
qed

theorem record_payload_witness:
  "JSON_stringify (JString (js ''/users/profile'')) =
     Some ([0x22] @ js ''/users/profile'' @ [0x22])
   \<and> JSON_stringify (JNumber (js ''700'')) = Some (js ''700'')
   \<and> template (JSON_stringify (JNumber (js ''700''))) = js ''700''"
proof -
  have h: "\<forall>c \<in> set (js ''/users/profile'').
             0x20 \<le> c \<and> c \<noteq> 0x22 \<and> c \<noteq> 0x5C \<and> (c < 0xD800 \<or> 0xDFFF < c)"
    by (simp add: js_def)
  have n: "JNumber (js ''700'') \<noteq> JUndefined"
    by simp
  from h record_payload_key_value_pairs
           [of _ _ "[]" "[]" "JNumber (js ''700'')" "js ''700''" "js ''/users/profile''" "[]" "[]"]
  have "JSON_stringify (JString (js ''/users/profile'')) =
          Some ([0x22] @ js ''/users/profile'' @ [0x22])"
    by blast
  moreover
  from n record_payload_key_value_pairs
           [of _ _ "[]" "[]" "JNumber (js ''700'')" "js ''700''" "js ''/users/profile''" "[]" "[]"]
  have "JSON_stringify (JNumber (js ''700'')) = Some (js ''700'')
        \<and> template (JSON_stringify (JNumber (js ''700''))) = js ''700''"
    by auto
  ultimately show ?thesis by blast
qed

text \<open>
  C8, as stated, fails in one corner: an error without a stack whose message is the
  empty string contributes the empty payload. For \<open>bare_error\<close> the line ends after the
  separator that follows the label.
\<close>

theorem error_empty_payload_counterexample:
  "err_stack bare_error = None
   \<and> payload P0 (AnError bare_error) [] = []
   \<and> log P0 (TYPES error) [AnError bare_error] =
       Some (stderr, meta_main @ js '' '' @ Figure_CROSS @ js ''  error   '' @ nl)"
  by (simp add: bare_error_def P0_def line_defs)

text \<open>
  C8, amended. For a first argument that is an error:
  \<^item> without a stack (none, or the empty string) the payload is the message, and the line
    is the line of a call without arguments, a space, and the message;
  \<^item> with a stack, the payload is the first line of the stack, a newline, and the
    remaining lines joined by newlines, the first line passed to the colour encoder with
    the underline code and the rest with the grey code: wrapped in those codes and the
    reset code when colours are enabled, as they are when colours are disabled;
  \<^item> the payload is empty only for an error without a stack whose message is empty.
  The model has no failure branch because \<open>#formatError\<close> has none.
\<close>

theorem error_payload_stack_or_message:
  "(err_stack e = None \<or> err_stack e = Some [] \<longrightarrow>
      payload p (AnError e) rest = err_message e
      \<and> buildMessage p type (AnError e # rest) = buildMessage p type [] @ js '' '' @ err_message e)
   \<and> (\<forall>st. err_stack e = Some st \<and> st \<noteq> [] \<longrightarrow>
        (\<exists>name stackLines.
            split 0x0A st = name # stackLines \<and> 0x0A \<notin> set name
          \<and> join nl (name # stackLines) = st
          \<and> payload p (AnError e) rest =
              applyColor p name [UNDERLINE] @ nl @ applyColor p (join nl stackLines) [GREY]
          \<and> (hash_useColors p \<longrightarrow>
                payload p (AnError e) rest =
                  Colour_str UNDERLINE @ name @ Colour_str RESET @ nl @
                  Colour_str GREY @ join nl stackLines @ Colour_str RESET)
          \<and> (\<not> hash_useColors p \<longrightarrow>
                payload p (AnError e) rest = name @ nl @ join nl stackLines)))
   \<and> (payload p (AnError e) rest = [] \<longleftrightarrow>
        (err_stack e = None \<or> err_stack e = Some []) \<and> err_message e = [])"
proof -
  have a: "payload p (AnError e) rest = err_message e
      \<and> buildMessage p type (AnError e # rest) = buildMessage p type [] @ js '' '' @ err_message e"
    if "err_stack e = None \<or> err_stack e = Some []"
    using that by (simp only: buildMessage_payload payload.simps formatError_no_stack)
  have b: "\<exists>name stackLines.
            split 0x0A st = name # stackLines \<and> 0x0A \<notin> set name
          \<and> join nl (name # stackLines) = st
          \<and> payload p (AnError e) rest =
              applyColor p name [UNDERLINE] @ nl @ applyColor p (join nl stackLines) [GREY]
          \<and> (hash_useColors p \<longrightarrow>
                payload p (AnError e) rest =
                  Colour_str UNDERLINE @ name @ Colour_str RESET @ nl @
                  Colour_str GREY @ join nl stackLines @ Colour_str RESET)
          \<and> (\<not> hash_useColors p \<longrightarrow>
                payload p (AnError e) rest = name @ nl @ join nl stackLines)"
    if st: "err_stack e = Some st \<and> st \<noteq> []" for st
  proof -
    obtain name stackLines where sp: "split 0x0A st = name # stackLines"
      using split_nonempty [of "0x0A" st] by (cases "split 0x0A st") auto
    have one: "0x0A \<notin> set name"
      using split_first_line [OF sp] .
    have rejoin: "join nl (name # stackLines) = st"
      using join_split [of "0x0A" st] sp by (simp add: nl_def)
    have pay: "payload p (AnError e) rest =
              applyColor p name [UNDERLINE] @ nl @ applyColor p (join nl stackLines) [GREY]"
      using st sp by (simp add: formatError_stack)
    have on: "payload p (AnError e) rest =
                  Colour_str UNDERLINE @ name @ Colour_str RESET @ nl @
                  Colour_str GREY @ join nl stackLines @ Colour_str RESET"
      if "hash_useColors p"
      using that by (simp only: pay applyColor_def colour_def) simp
    have off: "payload p (AnError e) rest = name @ nl @ join nl stackLines"
      if "\<not> hash_useColors p"
      using that by (simp only: pay applyColor_def) simp
    from sp one rejoin pay on off show ?thesis by blast
  qed
  have c: "payload p (AnError e) rest = [] \<longleftrightarrow>
        (err_stack e = None \<or> err_stack e = Some []) \<and> err_message e = []"
    by (rule error_payload_empty_iff)
  from a b c show ?thesis by blast
qed

theorem error_payload_witness:
  "err_stack (boom\<lparr>err_stack := None\<rparr>) = None
   \<and> payload P0 (AnError (boom\<lparr>err_stack := None\<rparr>)) [] = js ''boom''
   \<and> err_stack boom = Some (js ''Error: boom'' @ [0x0A] @ js ''    at main (app.js:1:1)'')
   \<and> hash_useColors (P0\<lparr>hash_useColors := True\<rparr>)
   \<and> payload (P0\<lparr>hash_useColors := True\<rparr>) (AnError boom) [] =
       Colour_str UNDERLINE @ js ''Error: boom'' @ Colour_str RESET @ nl @
       Colour_str GREY @ js ''    at main (app.js:1:1)'' @ Colour_str RESET"
proof -
  let ?st = "js ''Error: boom'' @ [0x0A] @ js ''    at main (app.js:1:1)''"
  let ?p = "P0\<lparr>hash_useColors := True\<rparr>"
  have h1: "err_stack (boom\<lparr>err_stack := None\<rparr>) = None"
    by simp
  have m: "err_message (boom\<lparr>err_stack := None\<rparr>) = js ''boom''"
    by (simp add: boom_def)
  have first: "payload P0 (AnError (boom\<lparr>err_stack := None\<rparr>)) [] = js ''boom''"
    using error_payload_stack_or_message [of "boom\<lparr>err_stack := None\<rparr>" P0 "[]"] h1 m
    by simp
  have h2: "err_stack boom = Some ?st \<and> ?st \<noteq> []"
    by (simp add: boom_def)
  have sp: "split 0x0A ?st = [js ''Error: boom'', js ''    at main (app.js:1:1)'']"
    by (simp add: js_def)
  have on: "hash_useColors ?p"
    by simp
  from error_payload_stack_or_message [of boom ?p "[]"] h2
  obtain name stackLines where
    "split 0x0A ?st = name # stackLines"
    "hash_useColors ?p \<longrightarrow>
       payload ?p (AnError boom) [] =
         Colour_str UNDERLINE @ name @ Colour_str RESET @ nl @
         Colour_str GREY @ join nl stackLines @ Colour_str RESET"
    by blast
  note got = this
  from got(1) sp have parts: "name = js ''Error: boom''" "stackLines = [js ''    at main (app.js:1:1)'']"
    by simp_all
  have "join nl stackLines = js ''    at main (app.js:1:1)''"
    by (simp add: parts)
  with got(2) on parts have "payload ?p (AnError boom) [] =
       Colour_str UNDERLINE @ js ''Error: boom'' @ Colour_str RESET @ nl @
       Colour_str GREY @ js ''    at main (app.js:1:1)'' @ Colour_str RESET"
    by simp
  with h1 first h2 on show ?thesis
    by simp
qed

end
